theory Spec2Isabelle
  imports Main "HOL-Library.Word"
begin

unbundle bit_operations_syntax

section \<open>Shared vocabulary\<close>

type_synonym u8 = "8 word"
type_synonym u32 = "32 word"
type_synonym u64 = "64 word"

text \<open>
  How a kernel operation can fail to return. \<open>Panic\<close> carries the message handed to
  \<^verbatim>\<open>panic()\<close>. \<open>Blocked\<close> is a caller put to sleep on a sleep-lock that is
  already held: in a sequential run nobody is left to release it. \<open>Out_of_fuel\<close> is a loop
  that did not finish within the number of iterations the model was given.
\<close>

datatype fault = Panic string | Blocked | Out_of_fuel

section \<open>Buffer cache (kernel/bio.c)\<close>

subsection \<open>Data\<close>

text \<open>\<^verbatim>\<open>#define NBUCKET 13\<close>\<close>

definition NBUCKET :: nat where
  "NBUCKET = 13"

text \<open>
  A \<^verbatim>\<open>struct buf *\<close> that bio.c can hold points into one of the two arrays of
  \<^verbatim>\<open>bcache\<close>: \<open>Buf i\<close> is \<^verbatim>\<open>&bcache.buf[i]\<close> and \<open>Bucket j\<close> is
  \<^verbatim>\<open>&bcache.bucket[j]\<close>, the sentinel of hash chain \<open>j\<close>. The array name
  \<^verbatim>\<open>bcache.bucket\<close> used as a pointer is \<open>Bucket 0\<close>.
\<close>

datatype bufptr = Buf nat | Bucket nat

text \<open>
  Modelled from the spec: \<^verbatim>\<open>struct buf\<close> (kernel/buf.h is not among the sources).
  The fields are the ones bio.c reads and writes: \<open>valid\<close>, \<open>dev\<close>, \<open>blockno\<close>, the
  sleep-lock, \<open>refcnt\<close>, the two links and the block's \<open>data\<close>. \<open>dev\<close> and
  \<open>blockno\<close> are \<^verbatim>\<open>uint\<close> as in the signature of \<^verbatim>\<open>bget\<close>; \<open>refcnt\<close> is an
  unsigned 32-bit counter. The sleep-lock is reduced to whether the (single, sequential)
  caller holds it.
\<close>

record buf =
  b_valid :: bool
  b_dev :: u32
  b_blockno :: u32
  b_locked :: bool
  b_refcnt :: u32
  b_prev :: bufptr
  b_next :: bufptr
  b_data :: "nat \<Rightarrow> u8"

text \<open>
  The state of the cache: the store of all \<^verbatim>\<open>struct buf\<close> objects of \<^verbatim>\<open>bcache\<close>
  (buffers and sentinels alike, so that aliasing between them is visible), and the disk
  behind it with counters of the transfers made.
\<close>

record bcache =
  heap :: "bufptr \<Rightarrow> buf"
  disk :: "u32 \<times> u32 \<Rightarrow> nat \<Rightarrow> u8"
  disk_reads :: nat
  disk_writes :: nat

text \<open>
  What the build fixes outside bio.c: the number of buffers (\<^verbatim>\<open>NBUF\<close>, kernel/param.h),
  and where the linker puts \<^verbatim>\<open>bcache.buf\<close> and how large a \<^verbatim>\<open>struct buf\<close> is,
  which \<^verbatim>\<open>binit\<close> hashes.
\<close>

record layout =
  NBUF :: nat
  buf_base :: u64
  buf_size :: u64

subsection \<open>Hashing\<close>

text \<open>\<^verbatim>\<open>#define HASH(key) ((uint64)(key) % NBUCKET)\<close>\<close>

definition HASH :: "u64 \<Rightarrow> u64" where
  "HASH key = key mod of_nat NBUCKET"

text \<open>
  \<^verbatim>\<open>dhash\<close>: the sum is a \<^verbatim>\<open>uint\<close> sum (it wraps at \<open>2^32\<close>) and only then
  widened to 64 bits; the result is returned as \<^verbatim>\<open>uint\<close>.
\<close>

definition dhash :: "u32 \<Rightarrow> u32 \<Rightarrow> nat" where
  "dhash dev blockno = unat (ucast (HASH (ucast (dev + blockno))) :: u32)"

subsection \<open>Collaborators\<close>

text \<open>
  Modelled from the spec: the sleep-lock primitives (kernel/sleeplock.c is not among the
  sources): \<open>acquire\<close> blocks while the lock is held, \<open>release\<close> frees it,
  \<open>holding?\<close> tells whether the caller holds it.
\<close>

definition holdingsleep :: "bufptr \<Rightarrow> bcache \<Rightarrow> bool" where
  "holdingsleep b s = b_locked (heap s b)"

definition acquiresleep :: "bufptr \<Rightarrow> bcache \<Rightarrow> fault + bcache" where
  "acquiresleep b s =
     (if b_locked (heap s b) then Inl Blocked
      else Inr (s\<lparr>heap := (heap s)(b := (heap s b)\<lparr>b_locked := True\<rparr>)\<rparr>))"

definition releasesleep :: "bufptr \<Rightarrow> bcache \<Rightarrow> bcache" where
  "releasesleep b s = s\<lparr>heap := (heap s)(b := (heap s b)\<lparr>b_locked := False\<rparr>)\<rparr>"

text \<open>
  Modelled from the spec: the disk driver's synchronous \<^verbatim>\<open>disk_rw(buffer, write)\<close>
  (\<^verbatim>\<open>virtio_disk_rw\<close>, not among the sources): a read fills the buffer's data from
  the block it names, a write takes the data; each call is counted.
\<close>

definition virtio_disk_rw :: "bufptr \<Rightarrow> bool \<Rightarrow> bcache \<Rightarrow> bcache" where
  "virtio_disk_rw b write s =
     (let k = (b_dev (heap s b), b_blockno (heap s b)) in
      if write
      then s\<lparr>disk := (disk s)(k := b_data (heap s b)), disk_writes := Suc (disk_writes s)\<rparr>
      else s\<lparr>heap := (heap s)(b := (heap s b)\<lparr>b_data := disk s k\<rparr>),
             disk_reads := Suc (disk_reads s)\<rparr>)"

subsection \<open>binit\<close>

text \<open>
  \<^verbatim>\<open>bcache\<close> has static storage, so every scalar field starts as zero. The link
  fields start as null pointers; \<^verbatim>\<open>binit\<close> assigns both links of every sentinel and of
  every buffer before any of them is read, and no operation ever stores a null link, so
  the pointer type has no null. In the zeroed store each node's links stand at the node
  itself until \<^verbatim>\<open>binit\<close> overwrites them.
\<close>

definition zero_buf :: "bufptr \<Rightarrow> buf" where
  "zero_buf p = \<lparr>b_valid = False, b_dev = 0, b_blockno = 0, b_locked = False,
     b_refcnt = 0, b_prev = p, b_next = p, b_data = (\<lambda>_. 0)\<rparr>"

text \<open>The address of \<^verbatim>\<open>&bcache.buf[i]\<close> as an integer, for \<^verbatim>\<open>HASH(b)\<close>.\<close>

definition buf_addr :: "layout \<Rightarrow> nat \<Rightarrow> u64" where
  "buf_addr lay i = buf_base lay + of_nat i * buf_size lay"

text \<open>First loop of \<^verbatim>\<open>binit\<close>: every sentinel becomes an empty circular list.\<close>

definition binit_bucket :: "nat \<Rightarrow> (bufptr \<Rightarrow> buf) \<Rightarrow> (bufptr \<Rightarrow> buf)" where
  "binit_bucket i h =
     (let h1 = h(Bucket i := (h (Bucket i))\<lparr>b_prev := Bucket i\<rparr>);
          h2 = h1(Bucket i := (h1 (Bucket i))\<lparr>b_next := Bucket i\<rparr>)
      in h2)"

text \<open>
  Body of the second loop: buffer \<open>i\<close> is linked at the head of the chain that the hash
  of its own address selects, and its sleep-lock is initialised.
\<close>

definition binit_buf :: "layout \<Rightarrow> nat \<Rightarrow> (bufptr \<Rightarrow> buf) \<Rightarrow> (bufptr \<Rightarrow> buf)" where
  "binit_buf lay i h =
     (let b = Buf i;
          bucketid = unat (ucast (HASH (buf_addr lay i)) :: u32);
          h1 = h(b := (h b)\<lparr>b_prev := Bucket bucketid\<rparr>);
          h2 = h1(b := (h1 b)\<lparr>b_next := b_next (h1 (Bucket bucketid))\<rparr>);
          h3 = h2(b := (h2 b)\<lparr>b_locked := False\<rparr>);
          q = b_next (h3 (Bucket bucketid));
          h4 = h3(q := (h3 q)\<lparr>b_prev := b\<rparr>);
          h5 = h4(Bucket bucketid := (h4 (Bucket bucketid))\<lparr>b_next := b\<rparr>)
      in h5)"

definition binit :: "layout \<Rightarrow> (u32 \<times> u32 \<Rightarrow> nat \<Rightarrow> u8) \<Rightarrow> bcache" where
  "binit lay d =
     \<lparr>heap = fold (binit_buf lay) [0..<NBUF lay] (fold binit_bucket [0..<NBUCKET] zero_buf),
      disk = d, disk_reads = 0, disk_writes = 0\<rparr>"

subsection \<open>bget\<close>

text \<open>
  The three list walks of \<^verbatim>\<open>bget\<close> have the same shape,
  \<^verbatim>\<open>for (b = head.next; b != &head; b = b->next) if (P(b)) ...\<close>,
  and leave the store untouched until a buffer is found. \<open>scan n P h head b\<close> runs such
  a walk from \<open>b\<close> for at most \<open>n\<close> iterations of the loop test.
\<close>

datatype scan_result = Scan_timeout | Not_found | Found bufptr

fun scan :: "nat \<Rightarrow> (buf \<Rightarrow> bool) \<Rightarrow> (bufptr \<Rightarrow> buf) \<Rightarrow> bufptr \<Rightarrow> bufptr \<Rightarrow> scan_result" where
  "scan 0 P h head b = Scan_timeout"
| "scan (Suc n) P h head b =
     (if b = head then Not_found
      else if P (h b) then Found b
      else scan n P h head (b_next (h b)))"

definition scan_bucket :: "nat \<Rightarrow> (buf \<Rightarrow> bool) \<Rightarrow> bcache \<Rightarrow> nat \<Rightarrow> scan_result" where
  "scan_bucket n P s j = scan n P (heap s) (Bucket j) (b_next (heap s (Bucket j)))"

text \<open>\<^verbatim>\<open>b->dev == dev && b->blockno == blockno\<close>\<close>

definition is_block :: "u32 \<Rightarrow> u32 \<Rightarrow> buf \<Rightarrow> bool" where
  "is_block dev blockno b \<longleftrightarrow> b_dev b = dev \<and> b_blockno b = blockno"

text \<open>\<^verbatim>\<open>b->refcnt == 0\<close>\<close>

definition is_unused :: "buf \<Rightarrow> bool" where
  "is_unused b \<longleftrightarrow> b_refcnt b = 0"

text \<open>\<^verbatim>\<open>b->refcnt++\<close> on the hit path.\<close>

definition take_ref :: "bufptr \<Rightarrow> bcache \<Rightarrow> bcache" where
  "take_ref b s = s\<lparr>heap := (heap s)(b := (heap s b)\<lparr>b_refcnt := b_refcnt (heap s b) + 1\<rparr>)\<rparr>"

text \<open>
  \<^verbatim>\<open>b->dev = dev; b->blockno = blockno; b->valid = 0; b->refcnt = 1;\<close>
  on both miss paths.
\<close>

definition claim :: "bufptr \<Rightarrow> u32 \<Rightarrow> u32 \<Rightarrow> bcache \<Rightarrow> bcache" where
  "claim b dev blockno s =
     s\<lparr>heap := (heap s)(b := (heap s b)\<lparr>b_dev := dev, b_blockno := blockno,
                                          b_valid := False, b_refcnt := 1\<rparr>)\<rparr>"

text \<open>
  The six pointer assignments of the steal, one store update each and in the source's
  order, so that every read sees the writes before it:
  \<^verbatim>\<open>
  b->prev->next = b->next;
  b->next->prev = b->prev;
  b->next = bcache.bucket[bucketid].next;
  b->prev = bcache.bucket;
  bcache.bucket[bucketid].next->prev = b;
  bcache.bucket[bucketid].next = b;
  \<close>
\<close>

definition relink :: "bufptr \<Rightarrow> nat \<Rightarrow> (bufptr \<Rightarrow> buf) \<Rightarrow> (bufptr \<Rightarrow> buf)" where
  "relink b bucketid h =
     (let p = b_prev (h b);
          h1 = h(p := (h p)\<lparr>b_next := b_next (h b)\<rparr>);
          n = b_next (h1 b);
          h2 = h1(n := (h1 n)\<lparr>b_prev := b_prev (h1 b)\<rparr>);
          h3 = h2(b := (h2 b)\<lparr>b_next := b_next (h2 (Bucket bucketid))\<rparr>);
          h4 = h3(b := (h3 b)\<lparr>b_prev := Bucket 0\<rparr>);
          q = b_next (h4 (Bucket bucketid));
          h5 = h4(q := (h4 q)\<lparr>b_prev := b\<rparr>);
          h6 = h5(Bucket bucketid := (h5 (Bucket bucketid))\<lparr>b_next := b\<rparr>)
      in h6)"

text \<open>
  The third loop of \<^verbatim>\<open>bget\<close>, \<^verbatim>\<open>for (int i = 1; i < NBUCKET; i++)\<close>, entered
  at \<open>i\<close>; falling out of it is the panic.
\<close>

function bget_steal :: "nat \<Rightarrow> u32 \<Rightarrow> u32 \<Rightarrow> nat \<Rightarrow> nat \<Rightarrow> bcache \<Rightarrow> fault + bufptr \<times> bcache" where
  "bget_steal n dev blockno bucketid i s =
     (if i < NBUCKET then
        (let old_bucketid = (bucketid + i) mod NBUCKET in
         case scan_bucket n is_unused s old_bucketid of
           Scan_timeout \<Rightarrow> Inl Out_of_fuel
         | Found b \<Rightarrow>
             (let s1 = claim b dev blockno s;
                  s2 = s1\<lparr>heap := relink b bucketid (heap s1)\<rparr>
              in case acquiresleep b s2 of Inl e \<Rightarrow> Inl e | Inr s3 \<Rightarrow> Inr (b, s3))
         | Not_found \<Rightarrow> bget_steal n dev blockno bucketid (Suc i) s)
      else Inl (Panic ''bget: no buffers''))"
  by pat_completeness auto
termination
  by (relation "measure (\<lambda>(n, dev, blockno, bucketid, i, s). NBUCKET - i)") auto

declare bget_steal.simps [simp del]

definition bget :: "nat \<Rightarrow> u32 \<Rightarrow> u32 \<Rightarrow> bcache \<Rightarrow> fault + bufptr \<times> bcache" where
  "bget n dev blockno s =
     (let bucketid = dhash dev blockno in
      case scan_bucket n (is_block dev blockno) s bucketid of
        Scan_timeout \<Rightarrow> Inl Out_of_fuel
      | Found b \<Rightarrow>
          (case acquiresleep b (take_ref b s) of Inl e \<Rightarrow> Inl e | Inr s1 \<Rightarrow> Inr (b, s1))
      | Not_found \<Rightarrow>
          (case scan_bucket n is_unused s bucketid of
             Scan_timeout \<Rightarrow> Inl Out_of_fuel
           | Found b \<Rightarrow>
               (case acquiresleep b (claim b dev blockno s) of
                  Inl e \<Rightarrow> Inl e | Inr s1 \<Rightarrow> Inr (b, s1))
           | Not_found \<Rightarrow> bget_steal n dev blockno bucketid 1 s))"

subsection \<open>bread, bwrite, brelse, bpin, bunpin\<close>

definition bread :: "nat \<Rightarrow> u32 \<Rightarrow> u32 \<Rightarrow> bcache \<Rightarrow> fault + bufptr \<times> bcache" where
  "bread n dev blockno s =
     (case bget n dev blockno s of
        Inl e \<Rightarrow> Inl e
      | Inr (b, s1) \<Rightarrow>
          if \<not> b_valid (heap s1 b)
          then (let s2 = virtio_disk_rw b False s1
                in Inr (b, s2\<lparr>heap := (heap s2)(b := (heap s2 b)\<lparr>b_valid := True\<rparr>)\<rparr>))
          else Inr (b, s1))"

definition bwrite :: "bufptr \<Rightarrow> bcache \<Rightarrow> fault + bcache" where
  "bwrite b s =
     (if \<not> holdingsleep b s then Inl (Panic ''bwrite'')
      else Inr (virtio_disk_rw b True s))"

definition brelse :: "bufptr \<Rightarrow> bcache \<Rightarrow> fault + bcache" where
  "brelse b s =
     (if \<not> holdingsleep b s then Inl (Panic ''brelse'')
      else (let s1 = releasesleep b s
            in Inr (s1\<lparr>heap := (heap s1)(b := (heap s1 b)\<lparr>b_refcnt := b_refcnt (heap s1 b) - 1\<rparr>)\<rparr>)))"

definition bpin :: "bufptr \<Rightarrow> bcache \<Rightarrow> bcache" where
  "bpin b s = s\<lparr>heap := (heap s)(b := (heap s b)\<lparr>b_refcnt := b_refcnt (heap s b) + 1\<rparr>)\<rparr>"

definition bunpin :: "bufptr \<Rightarrow> bcache \<Rightarrow> bcache" where
  "bunpin b s = s\<lparr>heap := (heap s)(b := (heap s b)\<lparr>b_refcnt := b_refcnt (heap s b) - 1\<rparr>)\<rparr>"


section \<open>Physical page allocator (kernel/kalloc.c)\<close>

subsection \<open>Data\<close>

text \<open>
  ``Allocates whole 4096-byte pages'': \<^verbatim>\<open>PGSIZE\<close> (kernel/riscv.h is not among the
  sources).
\<close>

definition PGSIZE :: nat where
  "PGSIZE = 4096"

text \<open>
  What the build fixes outside kalloc.c: the number of CPUs (\<^verbatim>\<open>NCPU\<close>,
  kernel/param.h), the linker symbol \<^verbatim>\<open>end\<close> (first address after the kernel
  image) and \<^verbatim>\<open>PHYSTOP\<close> (kernel/memlayout.h).
\<close>

record kconf =
  NCPU :: nat
  kernel_end :: u64
  PHYSTOP :: u64

text \<open>
  The allocator's state: \<^verbatim>\<open>kmem[c].freelist\<close> for every CPU \<open>c\<close>, and physical
  memory byte by byte, since a free frame stores the link to the next one in its own
  first eight bytes. The null pointer is address 0.
\<close>

record kmem =
  freelist :: "nat \<Rightarrow> u64"
  mem :: "u64 \<Rightarrow> u8"

subsection \<open>Memory access\<close>

text \<open>
  Modelled from the spec: \<^verbatim>\<open>memset(dst, c, n)\<close> (kernel/string.c is not among the
  sources), which overwrites the \<open>n\<close> bytes from \<open>dst\<close> with \<open>c\<close>, lowest address
  first.
\<close>

primrec memset :: "(u64 \<Rightarrow> u8) \<Rightarrow> u64 \<Rightarrow> u8 \<Rightarrow> nat \<Rightarrow> (u64 \<Rightarrow> u8)" where
  "memset m dst c 0 = m"
| "memset m dst c (Suc n) = memset (m(dst := c)) (dst + 1) c n"

text \<open>
  \<^verbatim>\<open>r->next\<close> is the 64-bit word at address \<open>r\<close>; RISC-V is little-endian, so
  byte \<open>i\<close> of the word lives at \<open>r + i\<close>.
\<close>

definition load64 :: "(u64 \<Rightarrow> u8) \<Rightarrow> u64 \<Rightarrow> u64" where
  "load64 m a =
     ucast (m a) OR push_bit 8 (ucast (m (a + 1))) OR push_bit 16 (ucast (m (a + 2)))
     OR push_bit 24 (ucast (m (a + 3))) OR push_bit 32 (ucast (m (a + 4)))
     OR push_bit 40 (ucast (m (a + 5))) OR push_bit 48 (ucast (m (a + 6)))
     OR push_bit 56 (ucast (m (a + 7)))"

definition store64 :: "(u64 \<Rightarrow> u8) \<Rightarrow> u64 \<Rightarrow> u64 \<Rightarrow> (u64 \<Rightarrow> u8)" where
  "store64 m a v =
     m(a := ucast v, a + 1 := ucast (drop_bit 8 v), a + 2 := ucast (drop_bit 16 v),
       a + 3 := ucast (drop_bit 24 v), a + 4 := ucast (drop_bit 32 v),
       a + 5 := ucast (drop_bit 40 v), a + 6 := ucast (drop_bit 48 v),
       a + 7 := ucast (drop_bit 56 v))"

subsection \<open>kfree\<close>

text \<open>
  The CPU the caller runs on, \<^verbatim>\<open>cpuid()\<close> read between \<^verbatim>\<open>push_off\<close> and
  \<^verbatim>\<open>pop_off\<close>, is the argument \<open>nc\<close>.
\<close>

definition kfree :: "kconf \<Rightarrow> nat \<Rightarrow> u64 \<Rightarrow> kmem \<Rightarrow> fault + kmem" where
  "kfree cf nc pa s =
     (if pa mod of_nat PGSIZE \<noteq> 0 \<or> pa < kernel_end cf \<or> pa \<ge> PHYSTOP cf
      then Inl (Panic ''kfree'')
      else (let m1 = memset (mem s) pa 1 PGSIZE;
                r = pa;
                m2 = store64 m1 r (freelist s nc)
            in Inr (s\<lparr>mem := m2, freelist := (freelist s)(nc := r)\<rparr>)))"

subsection \<open>kinit and freerange\<close>

text \<open>
  Modelled from the spec: \<^verbatim>\<open>PGROUNDUP\<close> (kernel/riscv.h is not among the sources)
  rounds an address up to the next page boundary; the arithmetic is \<^verbatim>\<open>uint64\<close>.
\<close>

definition PGROUNDUP :: "u64 \<Rightarrow> u64" where
  "PGROUNDUP sz = (sz + of_nat PGSIZE - 1) AND NOT (of_nat PGSIZE - 1)"

text \<open>
  The loop of \<^verbatim>\<open>freerange\<close>, \<^verbatim>\<open>for(; p + PGSIZE <= pa_end; p += PGSIZE) kfree(p);\<close>.
  The pointer arithmetic is 64-bit and can wrap, so the loop is given a bound on its
  iterations; a panic in \<^verbatim>\<open>kfree\<close> ends it.
\<close>

fun freerange_loop :: "nat \<Rightarrow> kconf \<Rightarrow> nat \<Rightarrow> u64 \<Rightarrow> u64 \<Rightarrow> kmem \<Rightarrow> fault + kmem" where
  "freerange_loop 0 cf nc p pa_end s = Inl Out_of_fuel"
| "freerange_loop (Suc n) cf nc p pa_end s =
     (if p + of_nat PGSIZE \<le> pa_end
      then (case kfree cf nc p s of
              Inl e \<Rightarrow> Inl e
            | Inr s1 \<Rightarrow> freerange_loop n cf nc (p + of_nat PGSIZE) pa_end s1)
      else Inr s)"

definition freerange :: "nat \<Rightarrow> kconf \<Rightarrow> nat \<Rightarrow> u64 \<Rightarrow> u64 \<Rightarrow> kmem \<Rightarrow> fault + kmem" where
  "freerange n cf nc pa_start pa_end s = freerange_loop n cf nc (PGROUNDUP pa_start) pa_end s"

text \<open>
  \<^verbatim>\<open>kmem\<close> has static storage, so every freelist starts as null; physical memory
  holds whatever it holds (\<open>m0\<close>).
\<close>

definition kinit :: "nat \<Rightarrow> kconf \<Rightarrow> nat \<Rightarrow> (u64 \<Rightarrow> u8) \<Rightarrow> fault + kmem" where
  "kinit n cf nc m0 =
     freerange n cf nc (kernel_end cf) (PHYSTOP cf) \<lparr>freelist = (\<lambda>_. 0), mem = m0\<rparr>"

subsection \<open>kalloc\<close>

text \<open>
  The probe of the other pools, \<^verbatim>\<open>for (int i = 1; i < NCPU; i++)\<close>, entered at
  \<open>i\<close>. It yields the frame popped (\<open>r\<close>, null if every probe found an empty list) and
  the state.
\<close>

function kalloc_steal :: "kconf \<Rightarrow> nat \<Rightarrow> nat \<Rightarrow> kmem \<Rightarrow> u64 \<times> kmem" where
  "kalloc_steal cf nc i s =
     (if i < NCPU cf then
        (let newnc = (nc + i) mod NCPU cf;
             r = freelist s newnc
         in if r \<noteq> 0
            then (r, s\<lparr>freelist := (freelist s)(newnc := load64 (mem s) r)\<rparr>)
            else kalloc_steal cf nc (Suc i) s)
      else (0, s))"
  by pat_completeness auto
termination
  by (relation "measure (\<lambda>(cf, nc, i, s). NCPU cf - i)") auto

declare kalloc_steal.simps [simp del]

definition kalloc :: "kconf \<Rightarrow> nat \<Rightarrow> kmem \<Rightarrow> u64 \<times> kmem" where
  "kalloc cf nc s =
     (let r = freelist s nc;
          (r, s1) = (if r \<noteq> 0
                     then (r, s\<lparr>freelist := (freelist s)(nc := load64 (mem s) r)\<rparr>)
                     else kalloc_steal cf nc 1 s)
      in if r \<noteq> 0 then (r, s1\<lparr>mem := memset (mem s1) r 5 PGSIZE\<rparr>) else (r, s1))"


section \<open>Example configurations and states\<close>

text \<open>
  A configuration with xv6's values (eight CPUs, 128 MB of RAM from \<open>0x80000000\<close>) and a
  few small states on which the theorems below are exercised.
\<close>

definition cf0 :: kconf where
  "cf0 = \<lparr>NCPU = 8, kernel_end = 0x80021000, PHYSTOP = 0x88000000\<rparr>"

definition kmem_one :: kmem where
  "kmem_one = \<lparr>freelist = (\<lambda>_. 0)(1 := 0x87FFF000), mem = (\<lambda>_. 0)\<rparr>"

definition kmem_zero :: kmem where
  "kmem_zero = \<lparr>freelist = (\<lambda>_. 0), mem = (\<lambda>_. 0)\<rparr>"

definition cache_held :: bcache where
  "cache_held = \<lparr>heap = zero_buf(Buf 0 := (zero_buf (Buf 0))\<lparr>b_locked := True, b_refcnt := 1\<rparr>),
     disk = (\<lambda>_ _. 0), disk_reads = 0, disk_writes = 0\<rparr>"

definition cache_zero :: bcache where
  "cache_zero = \<lparr>heap = zero_buf, disk = (\<lambda>_ _. 0), disk_reads = 0, disk_writes = 0\<rparr>"

section \<open>Page allocator: memory lemmas\<close>

lemma memset_apply:
  "n \<le> 2 ^ 64 \<Longrightarrow> memset m dst c n a = (if unat (a - dst) < n then c else m a)"
proof (induction n arbitrary: m dst)
  case 0 then show ?case by simp
next
  case (Suc n)
  have "unat (a - (dst + 1)) < n \<longleftrightarrow> a \<noteq> dst \<and> unat (a - dst) < Suc n"
  proof (cases "a = dst")
    case True
    have "unat (- 1 :: u64) = 2 ^ 64 - 1" by (simp add: unsigned_minus_1_eq_mask mask_eq_exp_minus_1)
    with True Suc.prems show ?thesis by simp
  next
    case False
    then have "a - dst \<noteq> 0" by simp
    then have "unat (a - dst) \<noteq> 0" by (simp add: unat_eq_0)
    then have "unat (a - dst - 1) = unat (a - dst) - 1"
      by (metis \<open>a - dst \<noteq> 0\<close> unat_minus_one)
    with False \<open>unat (a - dst) \<noteq> 0\<close> show ?thesis
      by (auto simp: diff_diff_eq)
  qed
  with Suc show ?case by auto
qed

lemma memset_page: "memset m dst c PGSIZE a = (if unat (a - dst) < PGSIZE then c else m a)"
  by (rule memset_apply) (simp add: PGSIZE_def)

lemma load64_bytes:
  assumes "m a = ucast v" "m (a + 1) = ucast (drop_bit 8 v)" "m (a + 2) = ucast (drop_bit 16 v)"
    "m (a + 3) = ucast (drop_bit 24 v)" "m (a + 4) = ucast (drop_bit 32 v)"
    "m (a + 5) = ucast (drop_bit 40 v)" "m (a + 6) = ucast (drop_bit 48 v)"
    "m (a + 7) = ucast (drop_bit 56 v)"
  shows "load64 m a = v"
proof (rule bit_eqI)
  fix n :: nat
  assume "possible_bit TYPE(u64) n"
  then have n: "n < 64" by simp
  have r: "n - 8 < 8 \<longleftrightarrow> n < 16" "n - 16 < 8 \<longleftrightarrow> n < 24" "n - 24 < 8 \<longleftrightarrow> n < 32"
    "n - 32 < 8 \<longleftrightarrow> n < 40" "n - 40 < 8 \<longleftrightarrow> n < 48" "n - 48 < 8 \<longleftrightarrow> n < 56"
    "n - 56 < 8 \<longleftrightarrow> n < 64"
    by arith+
  from n have r': "n - 8 < 64" "n - 16 < 64" "n - 24 < 64" "n - 32 < 64" "n - 40 < 64"
    "n - 48 < 64" "n - 56 < 64"
    by arith+
  from n consider "n < 8" | "8 \<le> n \<and> n < 16" | "16 \<le> n \<and> n < 24" | "24 \<le> n \<and> n < 32"
    | "32 \<le> n \<and> n < 40" | "40 \<le> n \<and> n < 48" | "48 \<le> n \<and> n < 56" | "56 \<le> n \<and> n < 64"
    by linarith
  then show "bit (load64 m a) n \<longleftrightarrow> bit v n"
    unfolding load64_def assms by cases (simp_all add: bit_simps r r')
qed

lemma load64_store64: "load64 (store64 m a v) a = v"
  by (rule load64_bytes) (simp_all add: store64_def)

section \<open>Page allocator: kfree and kalloc\<close>

text \<open>
  C6: \<^verbatim>\<open>kfree(pa)\<close> panics exactly when \<open>pa\<close> is not a multiple of the page size,
  or lies below the end of the kernel image, or at or above \<^verbatim>\<open>PHYSTOP\<close>; for every other
  address it completes and returns a state.
\<close>

theorem kfree_panics_iff:
  "(kfree cf nc pa s = Inl (Panic ''kfree'') \<longleftrightarrow>
      unat pa mod PGSIZE \<noteq> 0 \<or> unat pa < unat (kernel_end cf) \<or> unat (PHYSTOP cf) \<le> unat pa) \<and>
   (unat pa mod PGSIZE = 0 \<and> unat (kernel_end cf) \<le> unat pa \<and> unat pa < unat (PHYSTOP cf)
      \<longrightarrow> (\<exists>s'. kfree cf nc pa s = Inr s'))"
proof -
  have "unat (pa mod of_nat PGSIZE) = unat pa mod PGSIZE"
    by (simp add: PGSIZE_def unat_mod)
  then have "pa mod of_nat PGSIZE = 0 \<longleftrightarrow> unat pa mod PGSIZE = 0"
    by (metis unat_eq_0)
  then show ?thesis
    by (auto simp: kfree_def Let_def word_less_nat_alt word_le_nat_alt)
qed

theorem kfree_panics_iff_witness:
  "kfree cf0 0 0x80021001 kmem_zero = Inl (Panic ''kfree'') \<and>
   kfree cf0 0 0x80020000 kmem_zero = Inl (Panic ''kfree'') \<and>
   kfree cf0 0 0x88000000 kmem_zero = Inl (Panic ''kfree'') \<and>
   unat (0x80021000 :: u64) mod PGSIZE = 0 \<and> unat (kernel_end cf0) \<le> unat (0x80021000 :: u64) \<and>
   unat (0x80021000 :: u64) < unat (PHYSTOP cf0) \<and>
   (\<exists>s'. kfree cf0 0 0x80021000 kmem_zero = Inr s')"
proof -
  have a: "unat (0x80021001 :: u64) mod PGSIZE \<noteq> 0" by (simp add: PGSIZE_def)
  have b: "unat (0x80020000 :: u64) < unat (kernel_end cf0)" by (simp add: cf0_def)
  have c: "unat (PHYSTOP cf0) \<le> unat (0x88000000 :: u64)" by (simp add: cf0_def)
  have d: "unat (0x80021000 :: u64) mod PGSIZE = 0 \<and> unat (kernel_end cf0) \<le> unat (0x80021000 :: u64) \<and>
     unat (0x80021000 :: u64) < unat (PHYSTOP cf0)" by (simp add: cf0_def PGSIZE_def)
  from a kfree_panics_iff [of cf0 0 "0x80021001" kmem_zero]
  have 1: "kfree cf0 0 0x80021001 kmem_zero = Inl (Panic ''kfree'')" by blast
  from b kfree_panics_iff [of cf0 0 "0x80020000" kmem_zero]
  have 2: "kfree cf0 0 0x80020000 kmem_zero = Inl (Panic ''kfree'')" by blast
  from c kfree_panics_iff [of cf0 0 "0x88000000" kmem_zero]
  have 3: "kfree cf0 0 0x88000000 kmem_zero = Inl (Panic ''kfree'')" by blast
  from kfree_panics_iff [of cf0 0 "0x80021000" kmem_zero]
  have "unat (0x80021000 :: u64) mod PGSIZE = 0 \<and> unat (kernel_end cf0) \<le> unat (0x80021000 :: u64) \<and>
     unat (0x80021000 :: u64) < unat (PHYSTOP cf0) \<longrightarrow> (\<exists>s'. kfree cf0 0 0x80021000 kmem_zero = Inr s')"
    by (rule conjunct2)
  with d have 4: "\<exists>s'. kfree cf0 0 0x80021000 kmem_zero = Inr s'" by (rule rev_mp)
  from 1 2 3 d 4 show ?thesis by (intro conjI) simp_all
qed

lemma kalloc_steal_found:
  assumes "i \<le> k" "k < NCPU cf"
    and "\<forall>j. i \<le> j \<and> j < k \<longrightarrow> freelist s ((nc + j) mod NCPU cf) = 0"
    and "freelist s ((nc + k) mod NCPU cf) \<noteq> 0"
  shows "kalloc_steal cf nc i s =
           (freelist s ((nc + k) mod NCPU cf),
            s\<lparr>freelist := (freelist s)((nc + k) mod NCPU cf :=
                 load64 (mem s) (freelist s ((nc + k) mod NCPU cf)))\<rparr>)"
  using assms
proof (induction "k - i" arbitrary: i)
  case 0
  then have "i = k" by simp
  with 0 show ?case by (subst kalloc_steal.simps) (simp add: Let_def)
next
  case (Suc d)
  then have lt: "i < k" and e: "freelist s ((nc + i) mod NCPU cf) = 0" by auto
  from Suc have "kalloc_steal cf nc (Suc i) s =
           (freelist s ((nc + k) mod NCPU cf),
            s\<lparr>freelist := (freelist s)((nc + k) mod NCPU cf :=
                 load64 (mem s) (freelist s ((nc + k) mod NCPU cf)))\<rparr>)"
    by (intro Suc.hyps(1)) auto
  with lt e Suc.prems(2) show ?case
    by (subst kalloc_steal.simps) (simp add: Let_def)
qed

lemma kalloc_steal_none:
  assumes "\<forall>j. i \<le> j \<and> j < NCPU cf \<longrightarrow> freelist s ((nc + j) mod NCPU cf) = 0"
  shows "kalloc_steal cf nc i s = (0, s)"
  using assms
proof (induction "NCPU cf - i" arbitrary: i)
  case 0
  then show ?case by (subst kalloc_steal.simps) simp
next
  case (Suc d)
  then have "kalloc_steal cf nc (Suc i) s = (0, s)" by (intro Suc.hyps(1)) auto
  with Suc.prems Suc.hyps(2) show ?case
    by (subst kalloc_steal.simps) (simp add: Let_def)
qed

lemma kalloc_found:
  assumes "k < NCPU cf"
    and "\<forall>j<k. freelist s ((nc + j) mod NCPU cf) = 0"
    and "freelist s ((nc + k) mod NCPU cf) \<noteq> 0"  and "nc < NCPU cf"
  shows "kalloc cf nc s =
           (freelist s ((nc + k) mod NCPU cf),
            s\<lparr>freelist := (freelist s)((nc + k) mod NCPU cf :=
                 load64 (mem s) (freelist s ((nc + k) mod NCPU cf))),
              mem := memset (mem s) (freelist s ((nc + k) mod NCPU cf)) 5 PGSIZE\<rparr>)"
proof (cases "k = 0")
  case True
  with assms show ?thesis by (simp add: kalloc_def Let_def)
next
  case False
  with assms(2) have z: "freelist s nc = 0" using assms(4) by (metis add.right_neutral mod_less not_gr_zero)
  have "kalloc_steal cf nc 1 s = (freelist s ((nc + k) mod NCPU cf),
            s\<lparr>freelist := (freelist s)((nc + k) mod NCPU cf :=
                 load64 (mem s) (freelist s ((nc + k) mod NCPU cf)))\<rparr>)"
    using False assms by (intro kalloc_steal_found) auto
  with z assms(3) show ?thesis by (simp add: kalloc_def Let_def)
qed

lemma kalloc_none:
  assumes "\<forall>j<NCPU cf. freelist s ((nc + j) mod NCPU cf) = 0" "nc < NCPU cf"
  shows "kalloc cf nc s = (0, s)"
proof -
  from assms have z: "freelist s nc = 0" by (metis add.right_neutral mod_less less_nat_zero_code not_gr_zero)
  have "kalloc_steal cf nc 1 s = (0, s)" using assms by (intro kalloc_steal_none) auto
  with z show ?thesis by (simp add: kalloc_def Let_def)
qed

lemma probe_covers:
  assumes "nc < n" "c < (n::nat)"
  shows "\<exists>j<n. (nc + j) mod n = c"
proof -
  have "(nc + (c + n - nc) mod n) mod n = c"
    using assms by (metis (no_types, lifting) Nat.add_diff_assoc add.commute less_or_eq_imp_le
        mod_add_right_eq mod_add_self1 mod_less le_add_diff_inverse trans_less_add1)
  moreover have "(c + n - nc) mod n < n" using assms by simp
  ultimately show ?thesis by blast
qed

text \<open>
  C4: on a CPU \<open>nc\<close> below \<^verbatim>\<open>NCPU\<close>, \<^verbatim>\<open>kalloc\<close> returns null exactly when every one
  of the \<^verbatim>\<open>NCPU\<close> freelists is empty; otherwise, with \<open>k\<close> the first offset in the probe
  order \<open>nc, nc + 1, \<dots>\<close> (mod \<^verbatim>\<open>NCPU\<close>) whose pool is not empty, it returns the head of
  that pool, and every byte of the returned page is 5.
\<close>

theorem kalloc_null_iff_all_empty:
  assumes "nc < NCPU cf"
  shows "(fst (kalloc cf nc s) = 0 \<longleftrightarrow> (\<forall>c<NCPU cf. freelist s c = 0)) \<and>
    (\<forall>k<NCPU cf. (\<forall>j<k. freelist s ((nc + j) mod NCPU cf) = 0) \<and>
        freelist s ((nc + k) mod NCPU cf) \<noteq> 0 \<longrightarrow>
       fst (kalloc cf nc s) = freelist s ((nc + k) mod NCPU cf) \<and>
       (\<forall>off<PGSIZE. mem (snd (kalloc cf nc s)) (fst (kalloc cf nc s) + of_nat off) = 5))"
proof (intro conjI allI impI)
  show "fst (kalloc cf nc s) = 0 \<longleftrightarrow> (\<forall>c<NCPU cf. freelist s c = 0)"
  proof
    assume r: "fst (kalloc cf nc s) = 0"
    have "\<forall>j<NCPU cf. freelist s ((nc + j) mod NCPU cf) = 0"
    proof (rule ccontr)
      assume "\<not> ?thesis"
      then have ex: "\<exists>j. j < NCPU cf \<and> freelist s ((nc + j) mod NCPU cf) \<noteq> 0" by blast
      define k where "k = (LEAST j. j < NCPU cf \<and> freelist s ((nc + j) mod NCPU cf) \<noteq> 0)"
      from ex have k: "k < NCPU cf \<and> freelist s ((nc + k) mod NCPU cf) \<noteq> 0"
        unfolding k_def by (rule LeastI_ex)
      have "\<forall>j<k. freelist s ((nc + j) mod NCPU cf) = 0"
        using not_less_Least k unfolding k_def by (metis (mono_tags, lifting) less_trans)
      with k assms have "fst (kalloc cf nc s) = freelist s ((nc + k) mod NCPU cf)"
        using kalloc_found [of k cf s nc] by simp
      with k r show False by simp
    qed
    then show "\<forall>c<NCPU cf. freelist s c = 0"
      using probe_covers [OF assms] by metis
  next
    assume "\<forall>c<NCPU cf. freelist s c = 0"
    then have "\<forall>j<NCPU cf. freelist s ((nc + j) mod NCPU cf) = 0"
      using assms by simp
    with assms show "fst (kalloc cf nc s) = 0" by (simp add: kalloc_none)
  qed
next
  fix k assume k: "k < NCPU cf"
    and h: "(\<forall>j<k. freelist s ((nc + j) mod NCPU cf) = 0) \<and> freelist s ((nc + k) mod NCPU cf) \<noteq> 0"
  note eq = kalloc_found [OF k _ _ assms, of s]
  from h show "fst (kalloc cf nc s) = freelist s ((nc + k) mod NCPU cf)"
    by (simp add: eq)
  fix off assume "off < PGSIZE"
  then have "unat (of_nat off :: u64) < PGSIZE"
    by (simp add: PGSIZE_def unat_of_nat)
  with h show "mem (snd (kalloc cf nc s)) (fst (kalloc cf nc s) + of_nat off) = 5"
    by (simp add: eq memset_page)
qed

theorem kalloc_null_iff_all_empty_witness:
  "(0::nat) < NCPU cf0 \<and> freelist kmem_one ((0 + 0) mod NCPU cf0) = 0 \<and>
   freelist kmem_one ((0 + 1) mod NCPU cf0) \<noteq> 0 \<and>
   fst (kalloc cf0 0 kmem_one) = 0x87FFF000 \<and>
   mem (snd (kalloc cf0 0 kmem_one)) (0x87FFF000 + 4095) = 5 \<and>
   fst (kalloc cf0 0 kmem_zero) = 0"
proof -
  have n: "(0::nat) < NCPU cf0" by (simp add: cf0_def)
  have p0: "freelist kmem_one ((0 + 0) mod NCPU cf0) = 0"
    by (simp add: cf0_def kmem_one_def)
  have p1: "freelist kmem_one ((0 + 1) mod NCPU cf0) = 0x87FFF000"
    by (simp add: cf0_def kmem_one_def)
  have p: "(1::nat) < NCPU cf0 \<and> (\<forall>j<1. freelist kmem_one ((0 + j) mod NCPU cf0) = 0) \<and>
      freelist kmem_one ((0 + 1) mod NCPU cf0) \<noteq> 0"
    using p0 p1 by (simp add: cf0_def)
  have z: "\<forall>c<NCPU cf0. freelist kmem_zero c = 0" by (simp add: kmem_zero_def)
  have o: "(4095::nat) < PGSIZE" by (simp add: PGSIZE_def)
  from kalloc_null_iff_all_empty [OF n, of kmem_one] p o
  have "fst (kalloc cf0 0 kmem_one) = freelist kmem_one ((0 + 1) mod NCPU cf0) \<and>
      mem (snd (kalloc cf0 0 kmem_one)) (fst (kalloc cf0 0 kmem_one) + of_nat 4095) = 5"
    by blast
  then have a: "fst (kalloc cf0 0 kmem_one) = 0x87FFF000"
    and b0: "mem (snd (kalloc cf0 0 kmem_one)) (fst (kalloc cf0 0 kmem_one) + of_nat 4095) = 5"
    unfolding p1 by (rule conjunct1, rule conjunct2)
  from b0 have b: "mem (snd (kalloc cf0 0 kmem_one)) (0x87FFF000 + 4095) = 5"
    unfolding a by simp
  from kalloc_null_iff_all_empty [OF n, of kmem_zero] z
  have c: "fst (kalloc cf0 0 kmem_zero) = 0" by blast
  from p have p1': "freelist kmem_one ((0 + 1) mod NCPU cf0) \<noteq> 0" by blast
  from n p0 p1' a b c show ?thesis by (intro conjI)
qed

lemma kfree_kalloc:
  assumes "kfree cf nc p s = Inr s1" and "p \<noteq> 0"
  shows "fst (kalloc cf nc s1) = p \<and> freelist (snd (kalloc cf nc s1)) = freelist s"
proof -
  from assms(1) have s1: "s1 = s\<lparr>mem := store64 (memset (mem s) p 1 PGSIZE) p (freelist s nc),
      freelist := (freelist s)(nc := p)\<rparr>"
    by (auto simp: kfree_def Let_def split: if_splits)
  show ?thesis
    using assms(2) by (simp add: s1 kalloc_def Let_def load64_store64)
qed

text \<open>
  C8: when the kernel image does not end at address 0 (so that no frame is the null
  pointer), a \<^verbatim>\<open>kfree(p)\<close> that returns followed by \<^verbatim>\<open>kalloc()\<close> on the same CPU
  returns \<open>p\<close>, and the freelist heads are back to what they were before the
  \<^verbatim>\<open>kfree\<close>.
\<close>

theorem kfree_kalloc_roundtrip:
  assumes "kfree cf nc p s = Inr s1" and "kernel_end cf \<noteq> 0"
  shows "fst (kalloc cf nc s1) = p \<and> freelist (snd (kalloc cf nc s1)) = freelist s"
proof -
  from assms have "p \<noteq> 0"
    by (auto simp: kfree_def Let_def word_less_nat_alt unat_gt_0 split: if_splits)
  with assms(1) show ?thesis by (rule kfree_kalloc)
qed

theorem kfree_kalloc_roundtrip_witness:
  "kernel_end cf0 \<noteq> 0 \<and>
   (case kfree cf0 0 0x80021000 kmem_zero of
      Inl e \<Rightarrow> False
    | Inr s1 \<Rightarrow> fst (kalloc cf0 0 s1) = 0x80021000)"
proof -
  have e: "kernel_end cf0 \<noteq> 0" by (simp add: cf0_def)
  have "\<exists>s1. kfree cf0 0 0x80021000 kmem_zero = Inr s1"
    by (simp add: kfree_def cf0_def PGSIZE_def Let_def)
  then obtain s1 where k: "kfree cf0 0 0x80021000 kmem_zero = Inr s1" ..
  from kfree_kalloc_roundtrip [OF k e] k e show ?thesis by simp
qed

section \<open>Buffer cache: release and pins\<close>

lemma minus_one_u32: "(- 1 :: u32) = 4294967295"
proof -
  have "(4294967295 :: u32) + 1 = 0" by simp
  then show ?thesis by (simp add: eq_neg_iff_add_eq_0)
qed

lemma unat_minus_one_u32: "unat (- 1 :: u32) = 4294967295"
  by (simp add: unsigned_minus_1_eq_mask mask_eq_exp_minus_1)

text \<open>
  C9: for a buffer \<open>b\<close> whose sleep-lock the caller holds, \<^verbatim>\<open>brelse(b)\<close> returns, and
  the state it returns is the state before with exactly two fields of \<open>b\<close> changed: the
  sleep-lock is free and \<open>refcnt\<close> is one less. Every other field of \<open>b\<close> (\<open>dev\<close>,
  \<open>blockno\<close>, \<open>valid\<close>, \<open>data\<close>, both links), every other buffer and sentinel, the
  disk and the transfer counters are the same, also when \<open>refcnt\<close> reaches 0.
\<close>

theorem brelse_frame:
  assumes "holdingsleep b s"
  shows "brelse b s =
     Inr (s\<lparr>heap := (heap s)(b := (heap s b)\<lparr>b_locked := False,
                                             b_refcnt := b_refcnt (heap s b) - 1\<rparr>)\<rparr>)"
  using assms by (simp add: brelse_def releasesleep_def Let_def)

theorem brelse_frame_witness:
  "holdingsleep (Buf 0) cache_held \<and>
   (case brelse (Buf 0) cache_held of
      Inl e \<Rightarrow> False
    | Inr s' \<Rightarrow> b_refcnt (heap s' (Buf 0)) = 0 \<and> \<not> b_locked (heap s' (Buf 0)) \<and>
        b_next (heap s' (Buf 0)) = b_next (heap cache_held (Buf 0)) \<and>
        disk_reads s' = disk_reads cache_held)"
proof -
  have h: "holdingsleep (Buf 0) cache_held"
    by (simp add: holdingsleep_def cache_held_def)
  show ?thesis
    using h brelse_frame [OF h] by (simp add: cache_held_def zero_buf_def)
qed

text \<open>
  C10: \<^verbatim>\<open>bunpin\<close> has no failure branch. On a buffer whose \<open>refcnt\<close> is 0 it leaves
  \<open>refcnt\<close> at \<open>2^32 - 1\<close>, so the buffer no longer passes the test \<^verbatim>\<open>refcnt == 0\<close> of
  the reuse scans; nothing else changes.
\<close>

theorem bunpin_wraps:
  assumes "b_refcnt (heap s b) = 0"
  shows "b_refcnt (heap (bunpin b s) b) = 0xFFFFFFFF \<and>
         unat (b_refcnt (heap (bunpin b s) b)) = 2 ^ 32 - 1 \<and>
         \<not> is_unused (heap (bunpin b s) b) \<and>
         bunpin b s = s\<lparr>heap := (heap s)(b := (heap s b)\<lparr>b_refcnt := 0xFFFFFFFF\<rparr>)\<rparr>"
  using assms by (simp add: bunpin_def is_unused_def minus_one_u32)

theorem bunpin_wraps_witness:
  "b_refcnt (heap cache_zero (Buf 3)) = 0 \<and>
   unat (b_refcnt (heap (bunpin (Buf 3) cache_zero) (Buf 3))) = 4294967295"
proof -
  have h: "b_refcnt (heap cache_zero (Buf 3)) = 0"
    by (simp add: cache_zero_def zero_buf_def)
  show ?thesis
    using h bunpin_wraps [OF h] by simp
qed

end
